theory Spec2Isabelle
  imports Complex_Main "HOL-Library.Signed_Division"
begin

section \<open>Data model\<close>

text \<open>
  The generator wrapper \<^verbatim>\<open>GeneratorPythia8\<close> works on objects owned by the Pythia8 and ROOT
  libraries.  Only the parts the wrapper reads or writes are modelled.

  A \<^verbatim>\<open>Pythia8::Particle\<close> is a record of its saved fields; \<^verbatim>\<open>statusHepMC()\<close> is computed by
  the library and is kept as a field holding the value that call returns.  C++ \<^verbatim>\<open>int\<close> values
  are HOL integers: the functions below only compare, increment by one, subtract small
  decoded digits or divide, and event sizes are far below \<open>2^31\<close>, so no operation of the
  modelled code can wrap.  C++ \<^verbatim>\<open>double\<close> and \<^verbatim>\<open>float\<close> values are idealised as reals; the
  code only compares them with zero or hands them to library calls that are parameters here.
\<close>

record Particle =
  p_id :: int
  p_status :: int
  p_statusHepMC :: int
  mother1 :: int
  mother2 :: int
  daughter1 :: int
  daughter2 :: int
  p_px :: real
  p_py :: real
  p_pz :: real
  p_e :: real
  xProd :: real
  yProd :: real
  zProd :: real
  tProd :: real

text \<open>A \<^verbatim>\<open>Pythia8::Event\<close> is the vector of its entries; entry 0 is the system line.\<close>

type_synonym Event = "Particle list"

text \<open>ROOT's \<^verbatim>\<open>TParticle\<close>, with the \<^verbatim>\<open>kToBeDone\<close> bit as a field.\<close>

record TParticle =
  fPdgCode :: int
  fStatusCode :: int
  fMother1 :: int
  fMother2 :: int
  fDaughter1 :: int
  fDaughter2 :: int
  fPx :: real
  fPy :: real
  fPz :: real
  fE :: real
  fVx :: real
  fVy :: real
  fVz :: real
  fVt :: real
  kToBeDone :: bool

text \<open>\<^verbatim>\<open>Pythia8::Nucleon::Status\<close> and the two fields of a nucleon the wrapper reads.\<close>

datatype Status = UNWOUNDED | ELASTIC | DIFF | ABS

record Nucleon =
  n_status :: Status
  n_id :: int

text \<open>
  A sub-collision holds two \<^emph>\<open>pointers\<close> to nucleons.  Pointers are addresses into a nucleon
  store, so that the same nucleon can take part in several sub-collisions and identity
  (pointer equality) differs from equality of contents.
\<close>

type_synonym addr = nat

type_synonym NucleonStore = "addr \<Rightarrow> Nucleon"

record SubCollision =
  proj :: addr
  targ :: addr

record HIInfo =
  hi_b :: real
  subCollisions :: "SubCollision list"

text \<open>\<^verbatim>\<open>info.hiInfo\<close> is a pointer that may be null.\<close>

record Info =
  hiInfo :: "HIInfo option"

text \<open>
  Reading an event record out of range either raises (\<^verbatim>\<open>vector::at\<close>) or is undefined behaviour
  (\<^verbatim>\<open>vector::operator[]\<close>), depending on the version of the library; the model reports it as
  an error value.
\<close>

datatype error = OutOfRange

section \<open>generateEvent\<close>

text \<open>
  \<^verbatim>\<open>mPythia.next()\<close> and \<^verbatim>\<open>mPythia.moreDecays()\<close> are library calls on the generator's event;
  each returns its success flag and the event it leaves behind.  The macro
  \<^verbatim>\<open>PYTHIA_VERSION_INTEGER\<close> comes from the library's headers and is a parameter.
\<close>

definition force_vertex :: "Particle \<Rightarrow> Particle" where
  "force_vertex aParticle = aParticle\<lparr>xProd := 0, yProd := 0, zProd := 0, tProd := 0\<rparr>"

definition generateEvent ::
  "int \<Rightarrow> (Event \<Rightarrow> bool \<times> Event) \<Rightarrow> (Event \<Rightarrow> bool \<times> Event) \<Rightarrow> Event \<Rightarrow> bool \<times> Event" where
  "generateEvent PYTHIA_VERSION_INTEGER pythia_next pythia_moreDecays event =
     (case pythia_next event of (ok, event1) \<Rightarrow>
        if \<not> ok then (False, event1)
        else if PYTHIA_VERSION_INTEGER < 8300 then
          (case pythia_moreDecays (map force_vertex event1) of (ok2, event2) \<Rightarrow>
             if \<not> ok2 then (False, event2) else (True, event2))
        else (True, event1))"

text \<open>Two library behaviours used as concrete inputs: a call that succeeds and one that fails,
  both leaving the event as it is.\<close>

definition call_succeeds :: "Event \<Rightarrow> bool \<times> Event" where
  "call_succeeds event = (True, event)"

definition call_fails :: "Event \<Rightarrow> bool \<times> Event" where
  "call_fails event = (False, event)"

section \<open>importParticles\<close>

text \<open>
  \<^verbatim>\<open>MCGenStatusEncoding(hepmc, gen).fullEncoding\<close> is defined in a header that is not part of
  the sources at hand; it is the parameter \<open>fullEncoding\<close>.
\<close>

definition import_particle :: "(int \<Rightarrow> int \<Rightarrow> int) \<Rightarrow> Particle \<Rightarrow> TParticle" where
  "import_particle fullEncoding particle =
     (let pdg = p_id particle;
          st = fullEncoding (p_statusHepMC particle) (p_status particle);
          m1 = mother1 particle - 1;
          m2 = mother2 particle - 1;
          d1 = daughter1 particle - 1;
          d2 = daughter2 particle - 1
      in \<lparr> fPdgCode = pdg, fStatusCode = st,
           fMother1 = m1, fMother2 = m2, fDaughter1 = d1, fDaughter2 = d2,
           fPx = p_px particle, fPy = p_py particle, fPz = p_pz particle, fE = p_e particle,
           fVx = xProd particle, fVy = yProd particle, fVz = zProd particle,
           fVt = tProd particle,
           kToBeDone = (p_statusHepMC particle = 1) \<rparr>)"

function importParticles_loop ::
  "(int \<Rightarrow> int \<Rightarrow> int) \<Rightarrow> Event \<Rightarrow> nat \<Rightarrow> TParticle list \<Rightarrow> TParticle list" where
  "importParticles_loop fullEncoding event iparticle mParticles =
     (if iparticle < length event
      then importParticles_loop fullEncoding event (Suc iparticle)
             (mParticles @ [import_particle fullEncoding (event ! iparticle)])
      else mParticles)"
  by pat_completeness auto
termination
  by (relation "measure (\<lambda>(fullEncoding, event, iparticle, mParticles). length event - iparticle)") auto

declare importParticles_loop.simps [simp del]

definition importParticles ::
  "(int \<Rightarrow> int \<Rightarrow> int) \<Rightarrow> Event \<Rightarrow> TParticle list \<Rightarrow> bool \<times> TParticle list" where
  "importParticles fullEncoding event mParticles =
     (True, importParticles_loop fullEncoding event 1 mParticles)"

section \<open>getNcoll, getNpart\<close>

fun getNcoll_loop :: "NucleonStore \<Rightarrow> SubCollision list \<Rightarrow> int \<Rightarrow> int" where
  "getNcoll_loop mem [] nColl = nColl"
| "getNcoll_loop mem (sc # scs) nColl =
     (let pW = (n_status (mem (proj sc)) = ABS);
          tW = (n_status (mem (targ sc)) = ABS)
      in getNcoll_loop mem scs (if pW \<and> tW then nColl + 1 else nColl))"

text \<open>The last argument is the value the caller's variable holds before the call.\<close>

definition getNcoll :: "NucleonStore \<Rightarrow> Info \<Rightarrow> int \<Rightarrow> int" where
  "getNcoll mem info nColl_before =
     (let nColl = 0 in
      case hiInfo info of
        None \<Rightarrow> nColl
      | Some hiinfo \<Rightarrow> getNcoll_loop mem (subCollisions hiinfo) nColl)"

definition wounded :: "Nucleon \<Rightarrow> bool" where
  "wounded n = (n_status n = ABS \<or> n_status n = DIFF)"

text \<open>
  One side of the loop body of \<^verbatim>\<open>getNpart\<close>: the vector of wounded nucleons seen so far and
  the proton and neutron counters of that side.  The source writes this block twice, once
  for \<^verbatim>\<open>sc.proj\<close> with \<^verbatim>\<open>projW\<close> and once for \<^verbatim>\<open>sc.targ\<close> with \<^verbatim>\<open>targW\<close>.
\<close>

type_synonym side = "addr list \<times> int \<times> int"

definition count_wounded :: "NucleonStore \<Rightarrow> addr \<Rightarrow> side \<Rightarrow> side" where
  "count_wounded mem a s =
     (case s of (W, nProton, nNeutron) \<Rightarrow>
        if wounded (mem a) \<and> a \<notin> set W then
          (W @ [a],
           if n_id (mem a) = 2212 then nProton + 1 else nProton,
           if n_id (mem a) = 2212 then nNeutron
           else if n_id (mem a) = 2112 then nNeutron + 1 else nNeutron)
        else s)"

fun getNpart_loop :: "NucleonStore \<Rightarrow> SubCollision list \<Rightarrow> side \<times> side \<Rightarrow> side \<times> side" where
  "getNpart_loop mem [] s = s"
| "getNpart_loop mem (sc # scs) s =
     getNpart_loop mem scs
       (count_wounded mem (proj sc) (fst s), count_wounded mem (targ sc) (snd s))"

text \<open>The four results are \<open>(nProtonProj, nNeutronProj, nProtonTarg, nNeutronTarg)\<close>.\<close>

definition getNpart :: "NucleonStore \<Rightarrow> Info \<Rightarrow> int \<times> int \<times> int \<times> int \<Rightarrow> int \<times> int \<times> int \<times> int" where
  "getNpart mem info before =
     (let zero = (0, 0, 0, 0) in
      case hiInfo info of
        None \<Rightarrow> zero
      | Some hiinfo \<Rightarrow>
          (case getNpart_loop mem (subCollisions hiinfo) (([], 0, 0), ([], 0, 0)) of
             ((projW, nProtonProj, nNeutronProj), (targW, nProtonTarg, nNeutronTarg)) \<Rightarrow>
               (nProtonProj, nNeutronProj, nProtonTarg, nNeutronTarg)))"

definition getNpart_total :: "NucleonStore \<Rightarrow> Info \<Rightarrow> int \<Rightarrow> int" where
  "getNpart_total mem info nPart_before =
     (case getNpart mem info (0, 0, 0, 0) of
        (nProtonProj, nNeutronProj, nProtonTarg, nNeutronTarg) \<Rightarrow>
          nProtonProj + nNeutronProj + nProtonTarg + nNeutronTarg)"

section \<open>getNremn\<close>

text \<open>
  C++ \<^verbatim>\<open>/\<close> and \<^verbatim>\<open>%\<close> on \<^verbatim>\<open>int\<close> truncate towards zero: \<open>sdiv\<close> and \<open>smod\<close>.
  \<open>remnant_AZL\<close> is the block that extracts A, Z and L from the code; the loop state is
  \<open>(nProtonProj, nNeutronProj, nProtonTarg, nNeutronTarg, nNucRem)\<close>.
\<close>

definition remnant_AZL :: "int \<Rightarrow> int \<times> int \<times> int" where
  "remnant_AZL pdg0 =
     (let pdg1 = pdg0 sdiv 10;
          A = pdg1 smod 1000;
          pdg2 = pdg1 sdiv 1000;
          Z = pdg2 smod 1000;
          pdg3 = pdg2 sdiv 1000;
          L = pdg3 smod 10
      in (A, Z, L))"

definition getNremn_step :: "Particle \<Rightarrow> int \<times> int \<times> int \<times> int \<times> int \<Rightarrow> int \<times> int \<times> int \<times> int \<times> int" where
  "getNremn_step particle s =
     (case s of (nProtonProj, nNeutronProj, nProtonTarg, nNeutronTarg, nNucRem) \<Rightarrow>
        let pdg = p_id particle in
        if pdg < 1000000000 then s
        else if pdg smod 10 \<noteq> 9 then s
        else
          let (A, Z, L) = remnant_AZL pdg;
              (nProtonProj1, nNeutronProj1) =
                 (if p_pz particle > 0 then (Z, A - Z) else (nProtonProj, nNeutronProj));
              (nProtonTarg1, nNeutronTarg1) =
                 (if p_pz particle < 0 then (Z, A - Z) else (nProtonTarg, nNeutronTarg))
          in (nProtonProj1, nNeutronProj1, nProtonTarg1, nNeutronTarg1, nNucRem + 1))"

fun getNremn_loop :: "Event \<Rightarrow> int \<times> int \<times> int \<times> int \<times> int \<Rightarrow> int \<times> int \<times> int \<times> int \<times> int" where
  "getNremn_loop [] s = s"
| "getNremn_loop (particle # rest) s = getNremn_loop rest (getNremn_step particle s)"

text \<open>The result is the four counts and whether the warning was logged.\<close>

definition getNremn :: "Event \<Rightarrow> int \<times> int \<times> int \<times> int \<Rightarrow> (int \<times> int \<times> int \<times> int) \<times> bool" where
  "getNremn event before =
     (case getNremn_loop event (0, 0, 0, 0, 0) of
        (nProtonProj, nNeutronProj, nProtonTarg, nNeutronTarg, nNucRem) \<Rightarrow>
          ((nProtonProj, nNeutronProj, nProtonTarg, nNeutronTarg), nNucRem > 2))"

section \<open>getNfreeSpec\<close>

text \<open>
  \<^verbatim>\<open>o2::zdc::FragmentParam\<close> (four parametrised functions of the impact parameter) is defined
  outside the sources at hand and is a parameter, as are ROOT's \<^verbatim>\<open>gRandom->Gaus(mean, sigma)\<close>
  and the conversion \<^verbatim>\<open>(int)\<close> of a \<^verbatim>\<open>float\<close>.  The random generator is stateful: \<open>Gaus k\<close> is
  the \<open>k\<close>-th draw of the call.  \<open>castInt\<close> stands for whatever integer the conversion yields,
  so that nothing proved below depends on rounding or on the range of the value converted.
\<close>

record FragmentParam =
  fNeutrons :: "real \<Rightarrow> real"
  sigmaNeutrons :: "real \<Rightarrow> real"
  fProtons :: "real \<Rightarrow> real"
  sigmaProtons :: "real \<Rightarrow> real"

definition free_neutrons ::
  "FragmentParam \<Rightarrow> (nat \<Rightarrow> real \<Rightarrow> real \<Rightarrow> real) \<Rightarrow> (real \<Rightarrow> int) \<Rightarrow> real \<Rightarrow> nat \<Rightarrow> int" where
  "free_neutrons frag Gaus castInt b k =
     (let nave = fNeutrons frag b;
          sigman = sigmaNeutrons frag b;
          nfree = Gaus k nave (0.68 * sigman * nave);
          n0 = castInt nfree;
          n1 = (if nave < 0 \<or> n0 < 0 then 0 else n0);
          n2 = (if n1 > 126 then 126 else n1)
      in n2)"

definition free_protons ::
  "FragmentParam \<Rightarrow> (nat \<Rightarrow> real \<Rightarrow> real \<Rightarrow> real) \<Rightarrow> (real \<Rightarrow> int) \<Rightarrow> real \<Rightarrow> nat \<Rightarrow> int" where
  "free_protons frag Gaus castInt b k =
     (let pave = fProtons frag b;
          sigmap = sigmaNeutrons frag b;
          pfree = Gaus k pave (0.68 * sigmap * pave) / 0.7;
          n0 = castInt pfree;
          n1 = (if pave < 0 \<or> n0 < 0 then 0 else n0);
          n2 = (if n1 > 82 then 82 else n1)
      in n2)"

text \<open>
  The four reference parameters are \<open>(nFreenProj, nFreepProj, nFreenTarg, nFreepTarg)\<close>;
  \<open>before\<close> holds what the caller's variables hold before the call.
\<close>

definition getNfreeSpec ::
  "FragmentParam \<Rightarrow> (nat \<Rightarrow> real \<Rightarrow> real \<Rightarrow> real) \<Rightarrow> (real \<Rightarrow> int) \<Rightarrow> Info \<Rightarrow>
   int \<times> int \<times> int \<times> int \<Rightarrow> int \<times> int \<times> int \<times> int" where
  "getNfreeSpec frag Gaus castInt info before =
     (case hiInfo info of
        None \<Rightarrow> before
      | Some hiinfo \<Rightarrow>
          let b = hi_b hiinfo;
              nneu0 = free_neutrons frag Gaus castInt b 0;
              nneu1 = free_neutrons frag Gaus castInt b 1;
              npro0 = free_protons frag Gaus castInt b 2;
              npro1 = free_protons frag Gaus castInt b 3
          in (nneu0, npro0, nneu1, npro1))"

section \<open>selectFromAncestor\<close>

text \<open>
  \<^verbatim>\<open>Particle::daughterList()\<close> is a library function; the parameter \<open>daughterList event i\<close> is
  the list it returns for entry \<open>i\<close> of \<open>event\<close>.

  The recursive lambda \<^verbatim>\<open>select\<close> has no visited check, so it recurses for ever on a cyclic
  daughter relation.  The first argument bounds the depth of the recursion; \<open>None\<close> means the
  bound was reached.  \<open>select_daughters\<close> is the \<^verbatim>\<open>for (auto j : dl)\<close> loop.
\<close>

fun select ::
    "nat \<Rightarrow> (Event \<Rightarrow> nat \<Rightarrow> int list) \<Rightarrow> Event \<Rightarrow> int \<Rightarrow> int set \<Rightarrow> (error + int set) option"
  and select_daughters ::
    "nat \<Rightarrow> (Event \<Rightarrow> nat \<Rightarrow> int list) \<Rightarrow> Event \<Rightarrow> int list \<Rightarrow> int set \<Rightarrow> (error + int set) option"
  where
  "select 0 daughterList inputEvent i selected = None"
| "select (Suc depth) daughterList inputEvent i selected =
     (if i < 0 \<or> int (length inputEvent) \<le> i then Some (Inl OutOfRange)
      else select_daughters depth daughterList inputEvent
             (daughterList inputEvent (nat i)) (insert i selected))"
| "select_daughters depth daughterList inputEvent [] selected = Some (Inr selected)"
| "select_daughters depth daughterList inputEvent (j # dl) selected =
     (case select depth daughterList inputEvent j selected of
        None \<Rightarrow> None
      | Some (Inl err) \<Rightarrow> Some (Inl err)
      | Some (Inr selected1) \<Rightarrow> select_daughters depth daughterList inputEvent dl selected1)"

text \<open>The first loop over \<^verbatim>\<open>selected\<close>: \<^verbatim>\<open>indexMap[i] = index++\<close>.\<close>

fun assign_indices :: "int list \<Rightarrow> int \<Rightarrow> (int \<rightharpoonup> int) \<Rightarrow> (int \<rightharpoonup> int)" where
  "assign_indices [] index indexMap = indexMap"
| "assign_indices (i # rest) index indexMap = assign_indices rest (index + 1) (indexMap(i \<mapsto> index))"

text \<open>\<^verbatim>\<open>std::map::operator[]\<close>: a missing key is inserted with the value 0, which is returned.\<close>

definition map_subscript :: "(int \<rightharpoonup> int) \<Rightarrow> int \<Rightarrow> int \<times> (int \<rightharpoonup> int)" where
  "map_subscript indexMap k =
     (case indexMap k of Some v \<Rightarrow> (v, indexMap) | None \<Rightarrow> (0, indexMap(k \<mapsto> 0)))"

text \<open>
  The second loop over \<^verbatim>\<open>selected\<close>.  It reads the particles from the generator's own event
  \<^verbatim>\<open>mPythia.event\<close> (here \<open>mPythia_event\<close>), not from \<^verbatim>\<open>inputEvent\<close>.
\<close>

fun append_selected :: "Event \<Rightarrow> int list \<Rightarrow> (int \<rightharpoonup> int) \<Rightarrow> Event \<Rightarrow> error + Event" where
  "append_selected mPythia_event [] indexMap outputEvent = Inr outputEvent"
| "append_selected mPythia_event (i # rest) indexMap outputEvent =
     (if i < 0 \<or> int (length mPythia_event) \<le> i then Inl OutOfRange
      else
        let p = mPythia_event ! nat i;
            (m1, indexMap1) = map_subscript indexMap (mother1 p);
            (m2, indexMap2) = map_subscript indexMap1 (mother2 p);
            (d1, indexMap3) = map_subscript indexMap2 (daughter1 p);
            (d2, indexMap4) = map_subscript indexMap3 (daughter2 p);
            p1 = p\<lparr>mother1 := m1, mother2 := m2, daughter1 := d1, daughter2 := d2\<rparr>
        in append_selected mPythia_event rest indexMap4 (outputEvent @ [p1]))"

text \<open>
  \<^verbatim>\<open>std::set<int>\<close> is iterated in ascending order: \<open>sorted_list_of_set\<close>.
  The result is \<open>None\<close> when the recursion bound was reached, \<open>Some (Inl OutOfRange)\<close> when an
  event was read out of range, and otherwise the output event after the call.
\<close>

definition selectFromAncestor ::
  "(Event \<Rightarrow> nat \<Rightarrow> int list) \<Rightarrow> Event \<Rightarrow> nat \<Rightarrow> int \<Rightarrow> Event \<Rightarrow> Event \<Rightarrow> (error + Event) option" where
  "selectFromAncestor daughterList mPythia_event depth ancestor inputEvent outputEvent =
     (case select depth daughterList inputEvent ancestor {} of
        None \<Rightarrow> None
      | Some (Inl err) \<Rightarrow> Some (Inl err)
      | Some (Inr selected) \<Rightarrow>
          let sel = sorted_list_of_set selected;
              indexMap = assign_indices sel (int (length outputEvent)) Map.empty
          in Some (append_selected mPythia_event sel indexMap outputEvent))"

section \<open>Notions used to state the properties\<close>

text \<open>
  The physics library signals that it could not produce the event when \<^verbatim>\<open>mPythia.next()\<close> returns
  false or, in a build against a Pythia older than 8.3 (where the decays are run as a second
  step of generating the event), when \<^verbatim>\<open>mPythia.moreDecays()\<close> returns false on the event
  \<^verbatim>\<open>next()\<close> left, with its production vertices forced to zero.
\<close>

definition library_fails ::
  "int \<Rightarrow> (Event \<Rightarrow> bool \<times> Event) \<Rightarrow> (Event \<Rightarrow> bool \<times> Event) \<Rightarrow> Event \<Rightarrow> bool" where
  "library_fails PYTHIA_VERSION_INTEGER pythia_next pythia_moreDecays event =
     (\<not> fst (pythia_next event)
      \<or> (PYTHIA_VERSION_INTEGER < 8300
         \<and> \<not> fst (pythia_moreDecays (map force_vertex (snd (pythia_next event))))))"

text \<open>
  The particles the loop of \<^verbatim>\<open>getNremn\<close> does not skip, and the code \<^verbatim>\<open>10LZZZAAA9\<close> the comment
  in the source gives for a nuclear remnant (ten decimal digits: 1, 0, L, three of Z, three
  of A, 9).
\<close>

definition nuclear_remnant :: "Particle \<Rightarrow> bool" where
  "nuclear_remnant p = (1000000000 \<le> p_id p \<and> p_id p smod 10 = 9)"

definition remnant_code :: "int \<Rightarrow> int \<Rightarrow> int \<Rightarrow> int" where
  "remnant_code A Z L = 1000000009 + L * 10000000 + Z * 10000 + A * 10"

definition Z_of :: "Particle \<Rightarrow> int" where
  "Z_of p = (case remnant_AZL (p_id p) of (A, Z, L) \<Rightarrow> Z)"

definition N_of :: "Particle \<Rightarrow> int" where
  "N_of p = (case remnant_AZL (p_id p) of (A, Z, L) \<Rightarrow> A - Z)"

text \<open>
  The daughter relation of an event: \<open>(i, j)\<close> when \<open>i\<close> is an entry of the event and \<open>j\<close> is in
  its daughter list; the descendants of \<open>a\<close> are \<open>a\<close> and everything reachable from it.
\<close>

definition daughter_rel :: "(Event \<Rightarrow> nat \<Rightarrow> int list) \<Rightarrow> Event \<Rightarrow> (int \<times> int) set" where
  "daughter_rel daughterList event =
     {(i, j). 0 \<le> i \<and> i < int (length event) \<and> j \<in> set (daughterList event (nat i))}"

definition descendants :: "(Event \<Rightarrow> nat \<Rightarrow> int list) \<Rightarrow> Event \<Rightarrow> int \<Rightarrow> int set" where
  "descendants daughterList event a = (daughter_rel daughterList event)\<^sup>* `` {a}"

text \<open>
  The selected indices in the order the loops of \<^verbatim>\<open>selectFromAncestor\<close> visit them, the value
  \<^verbatim>\<open>indexMap[k]\<close> yields in the second loop (the position assigned to a selected \<open>k\<close>, and 0 for
  any other \<open>k\<close>), and a particle with its four indices sent through a function.
\<close>

definition selected_indices :: "(Event \<Rightarrow> nat \<Rightarrow> int list) \<Rightarrow> Event \<Rightarrow> nat \<Rightarrow> int \<Rightarrow> int list" where
  "selected_indices daughterList inputEvent depth ancestor =
     (case select depth daughterList inputEvent ancestor {} of
        Some (Inr selected) \<Rightarrow> sorted_list_of_set selected
      | _ \<Rightarrow> [])"

definition new_index :: "int list \<Rightarrow> int \<Rightarrow> int \<Rightarrow> int" where
  "new_index sel base k = (case assign_indices sel base Map.empty k of Some v \<Rightarrow> v | None \<Rightarrow> 0)"

definition remap_particle :: "(int \<Rightarrow> int) \<Rightarrow> Particle \<Rightarrow> Particle" where
  "remap_particle f p =
     p\<lparr>mother1 := f (mother1 p), mother2 := f (mother2 p),
       daughter1 := f (daughter1 p), daughter2 := f (daughter2 p)\<rparr>"

section \<open>Concrete inputs\<close>

text \<open>A particle with all fields zero, to be updated field by field.\<close>

definition particle0 :: Particle where
  "particle0 = \<lparr> p_id = 0, p_status = 0, p_statusHepMC = 0,
                  mother1 = 0, mother2 = 0, daughter1 = 0, daughter2 = 0,
                  p_px = 0, p_py = 0, p_pz = 0, p_e = 0,
                  xProd = 0, yProd = 0, zProd = 0, tProd = 0 \<rparr>"

text \<open>A parametrisation and a sequence of draws for \<^verbatim>\<open>getNfreeSpec\<close>.\<close>

definition frag_example :: FragmentParam where
  "frag_example = \<lparr> fNeutrons = (\<lambda>b. 10), sigmaNeutrons = (\<lambda>b. 1),
                     fProtons = (\<lambda>b. 5), sigmaProtons = (\<lambda>b. 1) \<rparr>"

definition Gaus_example :: "nat \<Rightarrow> real \<Rightarrow> real \<Rightarrow> real" where
  "Gaus_example k mean sigma = (if even k then - 7 else 700)"

text \<open>
  A nucleon store with an absorbed proton at address 1, an absorbed neutron at address 2
  and unwounded neutrons elsewhere, and two sub-collisions that share the projectile.
\<close>

definition mem_example :: NucleonStore where
  "mem_example a =
     (if a = 1 then \<lparr> n_status = ABS, n_id = 2212 \<rparr>
      else if a = 2 then \<lparr> n_status = ABS, n_id = 2112 \<rparr>
      else \<lparr> n_status = UNWOUNDED, n_id = 2112 \<rparr>)"

definition scs_example :: "SubCollision list" where
  "scs_example = [\<lparr> proj = 1, targ = 2 \<rparr>, \<lparr> proj = 1, targ = 3 \<rparr>]"

text \<open>
  An event of six entries in which entry 2 has the daughters 3 and 4, both of which have the
  daughter 5, so that 5 is reached from 2 along two paths; and an event whose entries have no
  daughters.
\<close>

definition daughterList_example :: "Event \<Rightarrow> nat \<Rightarrow> int list" where
  "daughterList_example event i =
     (if i = 1 then [2] else if i = 2 then [3, 4] else if i = 3 \<or> i = 4 then [5] else [])"

definition event_example :: Event where
  "event_example =
     [particle0,
      particle0\<lparr>p_id := 11, daughter1 := 2, daughter2 := 2\<rparr>,
      particle0\<lparr>p_id := 12, mother1 := 1, daughter1 := 3, daughter2 := 4\<rparr>,
      particle0\<lparr>p_id := 13, mother1 := 2, daughter1 := 5, daughter2 := 5\<rparr>,
      particle0\<lparr>p_id := 14, mother1 := 2, daughter1 := 5, daughter2 := 5\<rparr>,
      particle0\<lparr>p_id := 15, mother1 := 3, mother2 := 4\<rparr>]"

definition no_daughters :: "Event \<Rightarrow> nat \<Rightarrow> int list" where
  "no_daughters event i = []"

text \<open>What \<^verbatim>\<open>selectFromAncestor\<close> leaves in an output event that held one entry, for the ancestor 2
  of the example event.\<close>

definition output_example :: Event where
  "output_example =
     [particle0,
      particle0\<lparr>p_id := 12, mother1 := 0, daughter1 := 2, daughter2 := 3\<rparr>,
      particle0\<lparr>p_id := 13, mother1 := 1, daughter1 := 4, daughter2 := 4\<rparr>,
      particle0\<lparr>p_id := 14, mother1 := 1, daughter1 := 4, daughter2 := 4\<rparr>,
      particle0\<lparr>p_id := 15, mother1 := 2, mother2 := 3\<rparr>]"

text \<open>Two events that differ in entry 1: the one passed as \<^verbatim>\<open>inputEvent\<close> and the generator's own.\<close>

definition input_event_example :: Event where
  "input_event_example = [particle0, particle0\<lparr>p_id := 21\<rparr>]"

definition generator_event_example :: Event where
  "generator_event_example = [particle0, particle0\<lparr>p_id := 22\<rparr>]"

text \<open>A stand-in for the status encoding, used where a concrete function is needed.\<close>

definition fullEncoding_example :: "int \<Rightarrow> int \<Rightarrow> int" where
  "fullEncoding_example hepmc gen = hepmc"

section \<open>generateEvent: the returned flag\<close>

text \<open>
  Claim C7.  \<^verbatim>\<open>generateEvent\<close> is a total function to a flag: it has no raising branch.  It
  returns \<open>False\<close> whenever the physics library signals that it could not produce the event (a
  failing \<^verbatim>\<open>next()\<close> in every build, and a failing \<^verbatim>\<open>moreDecays()\<close> in a build against a Pythia
  older than 8.3), and \<open>True\<close> otherwise.  In particular a failing \<^verbatim>\<open>next()\<close> is always answered
  with \<open>False\<close>.
\<close>

theorem generateEvent_reports_failure:
  "fst (generateEvent v nxt md ev) = (\<not> library_fails v nxt md ev)
   \<and> (\<not> fst (nxt ev) \<longrightarrow> fst (generateEvent v nxt md ev) = False)"
  by (simp add: generateEvent_def library_fails_def split: prod.splits)

text \<open>
  Four runs: \<^verbatim>\<open>next()\<close> fails; \<^verbatim>\<open>next()\<close> succeeds in a build against Pythia 8.3.10; and, in a
  build against Pythia 8.2.99, \<^verbatim>\<open>next()\<close> succeeds and \<^verbatim>\<open>moreDecays()\<close> fails or succeeds.
\<close>

theorem generateEvent_reports_failure_witness:
  "library_fails 8310 call_fails call_succeeds []
   \<and> fst (generateEvent 8310 call_fails call_succeeds []) = False
   \<and> \<not> library_fails 8310 call_succeeds call_fails []
   \<and> fst (generateEvent 8310 call_succeeds call_fails []) = True
   \<and> library_fails 8299 call_succeeds call_fails []
   \<and> fst (generateEvent 8299 call_succeeds call_fails []) = False
   \<and> \<not> library_fails 8299 call_succeeds call_succeeds []
   \<and> fst (generateEvent 8299 call_succeeds call_succeeds []) = True"
proof -
  have a: "library_fails 8310 call_fails call_succeeds []"
    and b: "\<not> library_fails 8310 call_succeeds call_fails []"
    and c: "library_fails 8299 call_succeeds call_fails []"
    and d: "\<not> library_fails 8299 call_succeeds call_succeeds []"
    by (simp_all add: library_fails_def call_succeeds_def call_fails_def)
  show ?thesis
    using a b c d
      generateEvent_reports_failure [of 8310 call_fails call_succeeds "[]"]
      generateEvent_reports_failure [of 8310 call_succeeds call_fails "[]"]
      generateEvent_reports_failure [of 8299 call_succeeds call_fails "[]"]
      generateEvent_reports_failure [of 8299 call_succeeds call_succeeds "[]"]
    by simp
qed

section \<open>getNcoll and the outputs without heavy-ion information\<close>

lemma getNcoll_loop_count:
  "getNcoll_loop mem scs nColl =
     nColl + int (length (filter (\<lambda>sc. n_status (mem (proj sc)) = ABS \<and> n_status (mem (targ sc)) = ABS) scs))"
  by (induction scs arbitrary: nColl) (simp_all add: Let_def)

text \<open>
  Claim C5.  With heavy-ion information present, \<^verbatim>\<open>getNcoll\<close> returns the number of
  sub-collisions whose projectile and target nucleon both have the status \<open>ABS\<close>, whatever
  the caller's variable held before; on an empty list of sub-collisions it returns 0, and
  \<^verbatim>\<open>getNpart\<close> returns 0 for all four participant counts.
\<close>

theorem getNcoll_counts:
  "getNcoll mem \<lparr>hiInfo = Some hi\<rparr> before =
     int (length (filter (\<lambda>sc. n_status (mem (proj sc)) = ABS \<and> n_status (mem (targ sc)) = ABS)
            (subCollisions hi)))
   \<and> getNcoll mem \<lparr>hiInfo = Some (hi\<lparr>subCollisions := []\<rparr>)\<rparr> before = 0
   \<and> getNpart mem \<lparr>hiInfo = Some (hi\<lparr>subCollisions := []\<rparr>)\<rparr> before4 = (0, 0, 0, 0)"
  by (simp add: getNcoll_def getNpart_def getNcoll_loop_count)

text \<open>
  Claim C10.  When \<^verbatim>\<open>info.hiInfo\<close> is null, \<^verbatim>\<open>getNfreeSpec\<close> leaves its four reference
  parameters as the caller passed them, whereas \<^verbatim>\<open>getNcoll\<close> and \<^verbatim>\<open>getNpart\<close> have set theirs
  to 0.
\<close>

theorem no_hiInfo_outputs:
  "hiInfo info = None \<Longrightarrow>
     getNfreeSpec frag Gaus castInt info before = before
   \<and> getNcoll mem info nColl_before = 0
   \<and> getNpart mem info before4 = (0, 0, 0, 0)"
  by (simp add: getNfreeSpec_def getNcoll_def getNpart_def)

theorem no_hiInfo_outputs_witness:
  "hiInfo \<lparr>hiInfo = None\<rparr> = None
   \<and> getNfreeSpec frag_example Gaus_example floor \<lparr>hiInfo = None\<rparr> (7, 8, 9, 10) = (7, 8, 9, 10)
   \<and> getNcoll mem_example \<lparr>hiInfo = None\<rparr> 7 = 0
   \<and> getNpart mem_example \<lparr>hiInfo = None\<rparr> (7, 8, 9, 10) = (0, 0, 0, 0)"
  using no_hiInfo_outputs [of "\<lparr>hiInfo = None\<rparr>" frag_example Gaus_example floor "(7, 8, 9, 10)"
      mem_example 7 "(7, 8, 9, 10)"]
  by simp

section \<open>getNfreeSpec: clamping\<close>

lemma free_neutrons_range:
  "0 \<le> free_neutrons frag Gaus castInt b k \<and> free_neutrons frag Gaus castInt b k \<le> 126"
  by (simp add: free_neutrons_def Let_def)

lemma free_protons_range:
  "0 \<le> free_protons frag Gaus castInt b k \<and> free_protons frag Gaus castInt b k \<le> 82"
  by (simp add: free_protons_def Let_def)

text \<open>
  Claim C6.  With heavy-ion information present, for every parametrisation, every impact
  parameter, every sequence of values drawn by \<^verbatim>\<open>Gaus\<close> and every integer the conversion of a
  draw yields, \<^verbatim>\<open>getNfreeSpec\<close> returns (it has no failing branch) neutron counts between 0
  and 126 and proton counts between 0 and 82.
\<close>

theorem getNfreeSpec_clamped:
  "hiInfo info = Some hi \<Longrightarrow>
   getNfreeSpec frag Gaus castInt info before = (nFreenProj, nFreepProj, nFreenTarg, nFreepTarg) \<Longrightarrow>
     0 \<le> nFreenProj \<and> nFreenProj \<le> 126 \<and> 0 \<le> nFreenTarg \<and> nFreenTarg \<le> 126
   \<and> 0 \<le> nFreepProj \<and> nFreepProj \<le> 82 \<and> 0 \<le> nFreepTarg \<and> nFreepTarg \<le> 82"
  using free_neutrons_range free_protons_range
  by (auto simp add: getNfreeSpec_def Let_def)

theorem getNfreeSpec_clamped_witness:
  "hiInfo \<lparr>hiInfo = Some \<lparr>hi_b = 0, subCollisions = []\<rparr>\<rparr> = Some \<lparr>hi_b = 0, subCollisions = []\<rparr>
   \<and> getNfreeSpec frag_example Gaus_example floor \<lparr>hiInfo = Some \<lparr>hi_b = 0, subCollisions = []\<rparr>\<rparr>
         (7, 8, 9, 10) = (0, 0, 126, 82)
   \<and> (0::int) \<le> 0 \<and> (0::int) \<le> 126 \<and> (126::int) \<le> 126 \<and> (0::int) \<le> 82 \<and> (82::int) \<le> 82"
proof -
  have h: "hiInfo \<lparr>hiInfo = Some \<lparr>hi_b = 0, subCollisions = []\<rparr>\<rparr> = Some \<lparr>hi_b = 0, subCollisions = []\<rparr>"
    by simp
  have e: "getNfreeSpec frag_example Gaus_example floor \<lparr>hiInfo = Some \<lparr>hi_b = 0, subCollisions = []\<rparr>\<rparr>
             (7, 8, 9, 10) = (0, 0, 126, 82)"
    by (simp add: getNfreeSpec_def free_neutrons_def free_protons_def frag_example_def
        Gaus_example_def Let_def)
  show ?thesis using getNfreeSpec_clamped [OF h e] h e by simp
qed

section \<open>getNremn: decoding and assignment\<close>

text \<open>On non-negative operands truncating division agrees with \<open>div\<close> and \<open>mod\<close>.\<close>

lemma sdiv_nonneg: "0 \<le> (a::int) \<Longrightarrow> 0 < b \<Longrightarrow> a sdiv b = a div b"
  by (cases "a = 0") (simp_all add: signed_divide_int_def)

lemma smod_nonneg: "0 \<le> (a::int) \<Longrightarrow> 0 < b \<Longrightarrow> a smod b = a mod b"
  by (cases "a = 0") (simp_all add: signed_modulo_int_def)

lemma digit_split:
  fixes m q r :: int
  assumes "0 \<le> q" "0 \<le> r" "r < m"
  shows "(m * q + r) sdiv m = q" and "(m * q + r) smod m = r"
proof -
  have m: "0 < m" using assms by linarith
  have nn: "0 \<le> m * q + r" using assms m by simp
  have "(m * q + r) div m = q" using assms m by simp
  then show "(m * q + r) sdiv m = q" using nn m by (simp only: sdiv_nonneg)
  have "(m * q + r) mod m = r" using assms m by simp
  then show "(m * q + r) smod m = r" using nn m by (simp only: smod_nonneg)
qed

lemma remnant_AZL_code:
  assumes "0 \<le> A" "A < 1000" "0 \<le> Z" "Z < 1000" "0 \<le> L" "L < 10"
  shows "remnant_AZL (remnant_code A Z L) = (A, Z, L)"
proof -
  define c1 where "c1 = 1000 * (1000 * (10 * 10 + L) + Z) + A"
  define c2 where "c2 = 1000 * (10 * 10 + L) + Z"
  define c3 where "c3 = 10 * 10 + L"
  have e0: "remnant_code A Z L = 10 * c1 + 9"
    by (simp add: remnant_code_def c1_def)
  have e1: "c1 = 1000 * c2 + A" by (simp add: c1_def c2_def)
  have e2: "c2 = 1000 * c3 + Z" by (simp add: c2_def c3_def)
  have p3: "0 \<le> c3" using assms by (simp add: c3_def)
  have p2: "0 \<le> c2" using assms p3 by (simp add: e2)
  have p1: "0 \<le> c1" using assms p2 by (simp add: e1)
  have d1: "remnant_code A Z L sdiv 10 = c1"
    unfolding e0 using p1 by (intro digit_split) simp_all
  have a: "c1 smod 1000 = A" unfolding e1 using p2 assms by (intro digit_split)
  have d2: "c1 sdiv 1000 = c2" unfolding e1 using p2 assms by (intro digit_split)
  have z: "c2 smod 1000 = Z" unfolding e2 using p3 assms by (intro digit_split)
  have d3: "c2 sdiv 1000 = c3" unfolding e2 using p3 assms by (intro digit_split)
  have l: "c3 smod 10 = L" unfolding c3_def using assms by (intro digit_split) simp_all
  show ?thesis
    unfolding remnant_AZL_def Let_def d1 a d2 z d3 l by (rule refl)
qed

lemma remnant_code_remnant:
  assumes "0 \<le> A" "0 \<le> Z" "0 \<le> L"
  shows "1000000000 \<le> remnant_code A Z L" and "remnant_code A Z L smod 10 = 9"
proof -
  show "1000000000 \<le> remnant_code A Z L" using assms by (simp add: remnant_code_def)
  have e: "remnant_code A Z L = 10 * (100000000 + L * 1000000 + Z * 1000 + A) + 9"
    by (simp add: remnant_code_def)
  show "remnant_code A Z L smod 10 = 9"
    unfolding e using assms by (intro digit_split) simp_all
qed

lemma getNremn_loop_append:
  "getNremn_loop (xs @ ys) s = getNremn_loop ys (getNremn_loop xs s)"
  by (induction xs arbitrary: s) simp_all

lemma getNremn_loop_snoc: "getNremn_loop (ev @ [p]) s = getNremn_step p (getNremn_loop ev s)"
  by (simp add: getNremn_loop_append)

lemma getNremn_step_remnant:
  "nuclear_remnant p \<Longrightarrow>
   getNremn_step p (pp, np, pt, nt, k) =
     (if p_pz p > 0 then Z_of p else pp, if p_pz p > 0 then N_of p else np,
      if p_pz p < 0 then Z_of p else pt, if p_pz p < 0 then N_of p else nt, k + 1)"
  by (simp add: getNremn_step_def nuclear_remnant_def Z_of_def N_of_def Let_def split: prod.splits)

lemma getNremn_step_other:
  "\<not> nuclear_remnant p \<Longrightarrow> getNremn_step p s = s"
  by (cases s) (auto simp add: getNremn_step_def nuclear_remnant_def Let_def)

text \<open>
  Claim C4.  A particle whose identifier is the remnant code of mass number \<open>A\<close>, charge \<open>Z\<close>
  and flag \<open>L\<close> (three, three and one decimal digits) is decoded by the divisions and
  remainders of \<^verbatim>\<open>getNremn\<close> into exactly \<open>A\<close>, \<open>Z\<close> and \<open>L\<close>; when it is the last particle of
  the event, the projectile counts become \<open>Z\<close> protons and \<open>A - Z\<close> neutrons if its longitudinal
  momentum is positive, the target counts become these if it is negative, and the counts
  of the other side stay as the particles before it left them.
\<close>

theorem getNremn_decodes:
  assumes "0 \<le> A" "A < 1000" "0 \<le> Z" "Z < 1000" "0 \<le> L" "L < 10"
    and "p_id p = remnant_code A Z L"
    and "fst (getNremn event before) = (pp, np, pt, nt)"
  shows "remnant_AZL (p_id p) = (A, Z, L)
       \<and> fst (getNremn (event @ [p]) before) =
           (if p_pz p > 0 then Z else pp, if p_pz p > 0 then A - Z else np,
            if p_pz p < 0 then Z else pt, if p_pz p < 0 then A - Z else nt)"
proof -
  have azl: "remnant_AZL (p_id p) = (A, Z, L)"
    using assms by (simp add: remnant_AZL_code)
  have rem: "nuclear_remnant p"
    using assms remnant_code_remnant [of A Z L] by (simp add: nuclear_remnant_def)
  obtain k where k: "getNremn_loop event (0, 0, 0, 0, 0) = (pp, np, pt, nt, k)"
    using assms(8) by (auto simp add: getNremn_def split: prod.splits)
  have "getNremn_loop (event @ [p]) (0, 0, 0, 0, 0) = getNremn_step p (pp, np, pt, nt, k)"
    by (simp add: getNremn_loop_append k)
  then show ?thesis
    using azl by (simp add: getNremn_def getNremn_step_remnant [OF rem] Z_of_def N_of_def)
qed

text \<open>The remnant with A = 208, Z = 82, L = 0 and positive longitudinal momentum.\<close>

theorem getNremn_decodes_witness:
  "remnant_AZL (p_id (particle0\<lparr>p_id := 1000822089, p_pz := 1\<rparr>)) = (208, 82, 0)
   \<and> fst (getNremn ([] @ [particle0\<lparr>p_id := 1000822089, p_pz := 1\<rparr>]) (5, 6, 7, 8)) = (82, 126, 0, 0)"
proof -
  have c: "p_id (particle0\<lparr>p_id := 1000822089, p_pz := 1\<rparr>) = remnant_code 208 82 0"
    by (simp add: particle0_def remnant_code_def)
  have e: "fst (getNremn [] (5, 6, 7, 8)) = (0, 0, 0, 0)"
    by (simp add: getNremn_def)
  show ?thesis
    using getNremn_decodes [of 208 82 0 "particle0\<lparr>p_id := 1000822089, p_pz := 1\<rparr>" "[]"
        "(5, 6, 7, 8)" 0 0 0 0, OF _ _ _ _ _ _ c e]
    by (simp add: particle0_def)
qed

lemma getNremn_loop_last:
  "getNremn_loop ev (pp0, np0, pt0, nt0, k0) =
     (let ps = filter (\<lambda>p. nuclear_remnant p \<and> p_pz p > 0) ev;
          ts = filter (\<lambda>p. nuclear_remnant p \<and> p_pz p < 0) ev
      in (if ps = [] then pp0 else Z_of (last ps),
          if ps = [] then np0 else N_of (last ps),
          if ts = [] then pt0 else Z_of (last ts),
          if ts = [] then nt0 else N_of (last ts),
          k0 + int (length (filter nuclear_remnant ev))))"
proof (induction ev rule: rev_induct)
  case Nil
  show ?case by simp
next
  case (snoc p ev)
  show ?case
  proof (cases "nuclear_remnant p")
    case True
    show ?thesis
      unfolding getNremn_loop_snoc snoc.IH Let_def
      using True by (simp add: getNremn_step_remnant)
  next
    case False
    show ?thesis
      unfolding getNremn_loop_snoc snoc.IH Let_def
      using False by (simp add: getNremn_step_other)
  qed
qed

text \<open>
  Claim C9.  Let \<open>ps\<close> be the nuclear remnants of the event with positive longitudinal
  momentum and \<open>ts\<close> those with negative longitudinal momentum, in event order.  When a side
  has two or more remnants, the counts \<^verbatim>\<open>getNremn\<close> returns for that side are those decoded
  from the last of them: each remnant overwrites what the one before it assigned.  The
  function returns for any number of remnants; more than two of them only log the warning.
\<close>

theorem getNremn_overwrites:
  assumes "ps = filter (\<lambda>p. nuclear_remnant p \<and> p_pz p > 0) event"
    and "ts = filter (\<lambda>p. nuclear_remnant p \<and> p_pz p < 0) event"
    and "getNremn event before = ((nProtonProj, nNeutronProj, nProtonTarg, nNeutronTarg), warned)"
  shows "(2 \<le> length ps \<longrightarrow> nProtonProj = Z_of (last ps) \<and> nNeutronProj = N_of (last ps))
       \<and> (2 \<le> length ts \<longrightarrow> nProtonTarg = Z_of (last ts) \<and> nNeutronTarg = N_of (last ts))
       \<and> warned = (2 < length (filter nuclear_remnant event))"
  using assms(3) unfolding getNremn_def getNremn_loop_last Let_def assms(1) assms(2)
  by auto

text \<open>Two projectile-side remnants, lead-208 and then helium-4: the result is that of helium-4.\<close>

theorem getNremn_overwrites_witness:
  "2 \<le> length (filter (\<lambda>p. nuclear_remnant p \<and> p_pz p > 0)
        [particle0\<lparr>p_id := 1000822089, p_pz := 1\<rparr>, particle0\<lparr>p_id := 1000020049, p_pz := 1\<rparr>])
   \<and> getNremn [particle0\<lparr>p_id := 1000822089, p_pz := 1\<rparr>, particle0\<lparr>p_id := 1000020049, p_pz := 1\<rparr>]
        (0, 0, 0, 0) = ((2, 2, 0, 0), False)
   \<and> Z_of (particle0\<lparr>p_id := 1000822089, p_pz := 1\<rparr>) = 82
   \<and> N_of (particle0\<lparr>p_id := 1000822089, p_pz := 1\<rparr>) = 126"
proof -
  let ?a = "particle0\<lparr>p_id := 1000822089, p_pz := 1\<rparr>"
  let ?b = "particle0\<lparr>p_id := 1000020049, p_pz := 1\<rparr>"
  have ra: "nuclear_remnant ?a" and rb: "nuclear_remnant ?b"
    by (simp_all add: nuclear_remnant_def particle0_def signed_modulo_int_def)
  have za: "remnant_AZL (p_id ?a) = (208, 82, 0)"
    using remnant_AZL_code [of 208 82 0] by (simp add: remnant_code_def particle0_def)
  have zb: "remnant_AZL (p_id ?b) = (4, 2, 0)"
    using remnant_AZL_code [of 4 2 0] by (simp add: remnant_code_def particle0_def)
  have pz: "p_pz ?a = 1" "p_pz ?b = 1" by (simp_all add: particle0_def)
  have ps: "filter (\<lambda>p. nuclear_remnant p \<and> p_pz p > 0) [?a, ?b] = [?a, ?b]"
    using ra rb pz by simp
  have ts: "filter (\<lambda>p. nuclear_remnant p \<and> p_pz p < 0) [?a, ?b] = []"
    using pz by simp
  obtain r w where g: "getNremn [?a, ?b] (0, 0, 0, 0) = (r, w)"
    by (cases "getNremn [?a, ?b] (0, 0, 0, 0)")
  obtain a b c d where r: "r = (a, b, c, d)" by (cases r)
  have tz: "c = 0 \<and> d = 0"
    using g r ra rb pz
    by (simp add: getNremn_def getNremn_step_remnant split: prod.splits)
  from getNremn_overwrites [OF ps [symmetric] ts [symmetric] g [unfolded r]]
  have "a = Z_of ?b \<and> b = N_of ?b \<and> w = (2 < length (filter nuclear_remnant [?a, ?b]))"
    by simp
  then have "getNremn [?a, ?b] (0, 0, 0, 0) = ((2, 2, 0, 0), False)"
    using g r tz ra rb zb by (simp add: Z_of_def N_of_def)
  then show ?thesis
    using ps za by (simp add: Z_of_def N_of_def)
qed

section \<open>importParticles\<close>

lemma importParticles_loop_drop:
  "importParticles_loop enc event i mParticles =
     mParticles @ map (import_particle enc) (drop i event)"
proof (induction enc event i mParticles rule: importParticles_loop.induct)
  case (1 enc event i mParticles)
  show ?case
  proof (cases "i < length event")
    case True
    then have "drop i event = event ! i # drop (Suc i) event"
      by (simp add: Cons_nth_drop_Suc)
    then show ?thesis
      using True "1.IH" by (subst importParticles_loop.simps) simp
  next
    case False
    then show ?thesis by (subst importParticles_loop.simps) simp
  qed
qed

text \<open>
  Claim C8.  For an event of \<open>n \<ge> 1\<close> entries \<^verbatim>\<open>importParticles\<close> returns true and appends
  exactly \<open>n - 1\<close> particles to \<^verbatim>\<open>mParticles\<close>, leaving the particles already there untouched:
  the \<open>k\<close>-th appended particle is made from entry \<open>k + 1\<close> of the event (entry 0, the system
  line, is skipped), and its two mother and two daughter indices are those of that entry
  minus 1.
\<close>

theorem importParticles_skips_system:
  assumes "1 \<le> length event"
    and "importParticles enc event mParticles = (ok, mParticles1)"
  shows "ok
       \<and> length mParticles1 = length mParticles + (length event - 1)
       \<and> take (length mParticles) mParticles1 = mParticles
       \<and> (\<forall>k. k < length event - 1 \<longrightarrow>
            mParticles1 ! (length mParticles + k) = import_particle enc (event ! (k + 1))
          \<and> fMother1 (mParticles1 ! (length mParticles + k)) = mother1 (event ! (k + 1)) - 1
          \<and> fMother2 (mParticles1 ! (length mParticles + k)) = mother2 (event ! (k + 1)) - 1
          \<and> fDaughter1 (mParticles1 ! (length mParticles + k)) = daughter1 (event ! (k + 1)) - 1
          \<and> fDaughter2 (mParticles1 ! (length mParticles + k)) = daughter2 (event ! (k + 1)) - 1)"
proof -
  have m: "mParticles1 = mParticles @ map (import_particle enc) (drop 1 event)" and ok: "ok"
    using assms(2) by (simp_all add: importParticles_def importParticles_loop_drop)
  have f: "fMother1 (import_particle enc p) = mother1 p - 1"
          "fMother2 (import_particle enc p) = mother2 p - 1"
          "fDaughter1 (import_particle enc p) = daughter1 p - 1"
          "fDaughter2 (import_particle enc p) = daughter2 p - 1" for p
    by (simp_all add: import_particle_def Let_def)
  show ?thesis
    using ok by (simp add: m nth_append f)
qed

theorem importParticles_skips_system_witness:
  "1 \<le> length [particle0, particle0\<lparr>mother1 := 3, mother2 := 4, daughter1 := 5, daughter2 := 0\<rparr>]
   \<and> length (snd (importParticles fullEncoding_example
        [particle0, particle0\<lparr>mother1 := 3, mother2 := 4, daughter1 := 5, daughter2 := 0\<rparr>] [])) = 1
   \<and> fMother1 (snd (importParticles fullEncoding_example
        [particle0, particle0\<lparr>mother1 := 3, mother2 := 4, daughter1 := 5, daughter2 := 0\<rparr>] []) ! 0) = 2
   \<and> fDaughter2 (snd (importParticles fullEncoding_example
        [particle0, particle0\<lparr>mother1 := 3, mother2 := 4, daughter1 := 5, daughter2 := 0\<rparr>] []) ! 0) = - 1"
proof -
  let ?ev = "[particle0, particle0\<lparr>mother1 := 3, mother2 := 4, daughter1 := 5, daughter2 := 0\<rparr>]"
  have l: "1 \<le> length ?ev" by simp
  obtain ok ms where r: "importParticles fullEncoding_example ?ev [] = (ok, ms)"
    by (cases "importParticles fullEncoding_example ?ev []")
  from importParticles_skips_system [OF l r]
  have "length ms = 1 \<and> fMother1 (ms ! 0) = 2 \<and> fDaughter2 (ms ! 0) = - 1"
    by (simp add: particle0_def import_particle_def)
  then show ?thesis using r by simp
qed

section \<open>getNpart: distinct wounded nucleons\<close>

lemma card_new:
  assumes "a \<notin> set W"
  shows "card {x \<in> set (a # as). x \<notin> set W \<and> P x} =
         (if P a then 1 else 0) + card {x \<in> set as. x \<notin> set (W @ [a]) \<and> P x}"
proof -
  have fin: "finite {x \<in> set as. x \<notin> set (W @ [a]) \<and> P x}" by simp
  have notin: "a \<notin> {x \<in> set as. x \<notin> set (W @ [a]) \<and> P x}" by simp
  show ?thesis
  proof (cases "P a")
    case True
    then have "{x \<in> set (a # as). x \<notin> set W \<and> P x} = insert a {x \<in> set as. x \<notin> set (W @ [a]) \<and> P x}"
      using assms by auto
    then show ?thesis using True fin notin by simp
  next
    case False
    then have "{x \<in> set (a # as). x \<notin> set W \<and> P x} = {x \<in> set as. x \<notin> set (W @ [a]) \<and> P x}"
      by auto
    then show ?thesis using False by simp
  qed
qed

lemma count_wounded_fold:
  "fold (count_wounded mem) as (W, nP, nN) = (W1, nP1, nN1) \<Longrightarrow>
     nP1 = nP + int (card {a \<in> set as. a \<notin> set W \<and> wounded (mem a) \<and> n_id (mem a) = 2212})
   \<and> nN1 = nN + int (card {a \<in> set as. a \<notin> set W \<and> wounded (mem a) \<and> n_id (mem a) = 2112})"
proof (induction as arbitrary: W nP nN)
  case Nil
  then show ?case by simp
next
  case (Cons a as)
  show ?case
  proof (cases "wounded (mem a) \<and> a \<notin> set W")
    case True
    let ?nP = "if n_id (mem a) = 2212 then nP + 1 else nP"
    let ?nN = "if n_id (mem a) = 2212 then nN else if n_id (mem a) = 2112 then nN + 1 else nN"
    have step: "count_wounded mem a (W, nP, nN) = (W @ [a], ?nP, ?nN)"
      using True by (simp add: count_wounded_def)
    have "fold (count_wounded mem) as (W @ [a], ?nP, ?nN) = (W1, nP1, nN1)"
      using Cons.prems by (simp add: step)
    from Cons.IH [OF this]
    have ih: "nP1 = ?nP + int (card {x \<in> set as. x \<notin> set (W @ [a]) \<and> wounded (mem x) \<and> n_id (mem x) = 2212})"
             "nN1 = ?nN + int (card {x \<in> set as. x \<notin> set (W @ [a]) \<and> wounded (mem x) \<and> n_id (mem x) = 2112})"
      by simp_all
    have a: "a \<notin> set W" using True by simp
    show ?thesis
      unfolding ih card_new [OF a, where P = "\<lambda>x. wounded (mem x) \<and> n_id (mem x) = 2212" and as = as]
        card_new [OF a, where P = "\<lambda>x. wounded (mem x) \<and> n_id (mem x) = 2112" and as = as]
      using True by simp
  next
    case False
    have step: "count_wounded mem a (W, nP, nN) = (W, nP, nN)"
      using False by (simp add: count_wounded_def)
    have "fold (count_wounded mem) as (W, nP, nN) = (W1, nP1, nN1)"
      using Cons.prems by (simp add: step)
    from Cons.IH [OF this]
    have ih: "nP1 = nP + int (card {x \<in> set as. x \<notin> set W \<and> wounded (mem x) \<and> n_id (mem x) = 2212})"
             "nN1 = nN + int (card {x \<in> set as. x \<notin> set W \<and> wounded (mem x) \<and> n_id (mem x) = 2112})"
      by simp_all
    have f: "a \<in> set W \<or> \<not> wounded (mem a)" using False by auto
    have "{x \<in> set (a # as). x \<notin> set W \<and> wounded (mem x) \<and> n_id (mem x) = c} =
          {x \<in> set as. x \<notin> set W \<and> wounded (mem x) \<and> n_id (mem x) = c}" for c
      using f by auto
    then show ?thesis
      unfolding ih by simp
  qed
qed

lemma getNpart_loop_sides:
  "getNpart_loop mem scs s =
     (fold (count_wounded mem) (map proj scs) (fst s), fold (count_wounded mem) (map targ scs) (snd s))"
  by (induction scs arbitrary: s) simp_all

text \<open>
  Claim C3.  With heavy-ion information present, each of the four counts \<^verbatim>\<open>getNpart\<close> returns
  is the number of distinct nucleons (distinct addresses, however many sub-collisions name
  them) on that side whose status is \<open>ABS\<close> or \<open>DIFF\<close> and whose species code is 2212 for the
  proton counts and 2112 for the neutron counts.
\<close>

theorem getNpart_counts_distinct:
  assumes "hiInfo info = Some hi"
  shows "getNpart mem info before =
     (int (card {a \<in> proj ` set (subCollisions hi). wounded (mem a) \<and> n_id (mem a) = 2212}),
      int (card {a \<in> proj ` set (subCollisions hi). wounded (mem a) \<and> n_id (mem a) = 2112}),
      int (card {a \<in> targ ` set (subCollisions hi). wounded (mem a) \<and> n_id (mem a) = 2212}),
      int (card {a \<in> targ ` set (subCollisions hi). wounded (mem a) \<and> n_id (mem a) = 2112}))"
proof -
  obtain pw pp pn where p: "fold (count_wounded mem) (map proj (subCollisions hi)) ([], 0, 0) = (pw, pp, pn)"
    by (cases "fold (count_wounded mem) (map proj (subCollisions hi)) ([], 0, 0)")
  obtain tw tp tn where t: "fold (count_wounded mem) (map targ (subCollisions hi)) ([], 0, 0) = (tw, tp, tn)"
    by (cases "fold (count_wounded mem) (map targ (subCollisions hi)) ([], 0, 0)")
  show ?thesis
    using count_wounded_fold [OF p] count_wounded_fold [OF t] assms
    by (simp add: getNpart_def getNpart_loop_sides p t)
qed

text \<open>The projectile at address 1 is absorbed and takes part in both sub-collisions: it is
  counted once.\<close>

theorem getNpart_counts_distinct_witness:
  "hiInfo \<lparr>hiInfo = Some \<lparr>hi_b = 0, subCollisions = scs_example\<rparr>\<rparr>
     = Some \<lparr>hi_b = 0, subCollisions = scs_example\<rparr>
   \<and> map proj scs_example = [1, 1]
   \<and> n_status (mem_example 1) = ABS
   \<and> getNpart mem_example \<lparr>hiInfo = Some \<lparr>hi_b = 0, subCollisions = scs_example\<rparr>\<rparr> (7, 8, 9, 10)
       = (1, 0, 0, 1)
   \<and> card {a \<in> proj ` set (subCollisions \<lparr>hi_b = 0, subCollisions = scs_example\<rparr>).
             wounded (mem_example a) \<and> n_id (mem_example a) = 2212} = 1"
proof -
  let ?hi = "\<lparr>hi_b = 0, subCollisions = scs_example\<rparr>"
  have h: "hiInfo \<lparr>hiInfo = Some ?hi\<rparr> = Some ?hi" by simp
  have e: "getNpart mem_example \<lparr>hiInfo = Some ?hi\<rparr> (7, 8, 9, 10) = (1, 0, 0, 1)"
    by (simp add: getNpart_def scs_example_def count_wounded_def mem_example_def wounded_def)
  show ?thesis
    using getNpart_counts_distinct [OF h, of mem_example "(7, 8, 9, 10)"] e h
    by (simp add: scs_example_def mem_example_def)
qed

section \<open>selectFromAncestor: selection and appended particles\<close>

subsection \<open>The selected set is finite and holds the ancestor\<close>

lemma select_finite_aux:
  "(\<forall>S'. select d DL ev i S = Some (Inr S') \<longrightarrow> finite S \<longrightarrow> finite S' \<and> insert i S \<subseteq> S')"
  "(\<forall>S'. select_daughters d DL ev js S = Some (Inr S') \<longrightarrow> finite S \<longrightarrow> finite S' \<and> S \<subseteq> S')"
proof (induction d DL ev i S and d DL ev js S rule: select_select_daughters.induct)
  case (1 DL ev i S)
  show ?case by simp
next
  case (2 d DL ev i S)
  then show ?case by (auto split: if_splits)
next
  case (3 d DL ev S)
  show ?case by simp
next
  case (4 d DL ev j dl S)
  show ?case
  proof (intro allI impI)
    fix S' assume r: "select_daughters d DL ev (j # dl) S = Some (Inr S')" and f: "finite S"
    from r obtain S1 where s1: "select d DL ev j S = Some (Inr S1)"
      and s2: "select_daughters d DL ev dl S1 = Some (Inr S')"
      by (auto split: option.splits sum.splits)
    from "4.IH"(1) s1 f have f1: "finite S1" and sub1: "insert j S \<subseteq> S1" by auto
    from "4.IH"(2) [OF s1] s2 f1 have "finite S'" and "S1 \<subseteq> S'" by auto
    then show "finite S' \<and> S \<subseteq> S'" using sub1 by auto
  qed
qed

subsection \<open>The positions assigned by the first loop\<close>

lemma assign_indices_other:
  "k \<notin> set xs \<Longrightarrow> assign_indices xs b m k = m k"
  by (induction xs arbitrary: b m) simp_all

lemma assign_indices_nth:
  "distinct xs \<Longrightarrow> n < length xs \<Longrightarrow> assign_indices xs b m (xs ! n) = Some (b + int n)"
proof (induction xs arbitrary: b m n)
  case Nil
  then show ?case by simp
next
  case (Cons x xs)
  show ?case
  proof (cases n)
    case 0
    then show ?thesis using Cons.prems by (simp add: assign_indices_other)
  next
    case (Suc n')
    have "assign_indices (x # xs) b m ((x # xs) ! n) = assign_indices xs (b + 1) (m(x \<mapsto> b)) (xs ! n')"
      by (simp add: Suc)
    also have "\<dots> = Some (b + 1 + int n')"
      using Cons.prems Suc by (intro Cons.IH) simp_all
    finally show ?thesis by (simp add: Suc)
  qed
qed

lemma new_index_nth:
  "distinct sel \<Longrightarrow> n < length sel \<Longrightarrow> new_index sel base (sel ! n) = base + int n"
  by (simp add: new_index_def assign_indices_nth)

lemma new_index_other:
  "k \<notin> set sel \<Longrightarrow> new_index sel base k = 0"
  by (simp add: new_index_def assign_indices_other)

lemma new_index_range:
  assumes "distinct sel"
  shows "new_index sel base k = 0 \<or> (base \<le> new_index sel base k \<and> new_index sel base k < base + int (length sel))"
proof (cases "k \<in> set sel")
  case True
  then obtain n where "n < length sel" "sel ! n = k" by (auto simp add: in_set_conv_nth)
  then show ?thesis using new_index_nth [OF assms, of n base] by auto
next
  case False
  then show ?thesis by (simp add: new_index_other)
qed

subsection \<open>The second loop\<close>

text \<open>
  During the second loop \<^verbatim>\<open>indexMap\<close> is the map the first loop built, with default entries 0 at
  keys that were looked up and had no position assigned.  A lookup keeps it so.
\<close>

lemma map_subscript_new_index:
  assumes "\<forall>k. im k = assign_indices sel base Map.empty k \<or> (assign_indices sel base Map.empty k = None \<and> im k = Some 0)"
  shows "fst (map_subscript im x) = new_index sel base x
       \<and> (\<forall>k. snd (map_subscript im x) k = assign_indices sel base Map.empty k
              \<or> (assign_indices sel base Map.empty k = None \<and> snd (map_subscript im x) k = Some 0))"
proof -
  have "im x = assign_indices sel base Map.empty x \<or> (assign_indices sel base Map.empty x = None \<and> im x = Some 0)"
    using assms by blast
  then have 1: "fst (map_subscript im x) = new_index sel base x"
    by (auto simp add: map_subscript_def new_index_def split: option.splits)
  have 2: "snd (map_subscript im x) k = assign_indices sel base Map.empty k
              \<or> (assign_indices sel base Map.empty k = None \<and> snd (map_subscript im x) k = Some 0)" for k
    using assms [rule_format, of k] assms [rule_format, of x]
    by (cases "k = x") (auto simp add: map_subscript_def split: option.splits)
  show ?thesis using 1 2 by blast
qed

lemma append_selected_eq:
  assumes "\<forall>k. im k = assign_indices sel base Map.empty k \<or> (assign_indices sel base Map.empty k = None \<and> im k = Some 0)"
  shows "append_selected py is im out =
     (if \<forall>i \<in> set is. 0 \<le> i \<and> i < int (length py)
      then Inr (out @ map (\<lambda>i. remap_particle (new_index sel base) (py ! nat i)) is)
      else Inl OutOfRange)"
  using assms
proof (induction "is" arbitrary: im out)
  case Nil
  show ?case by simp
next
  case (Cons i rest)
  show ?case
  proof (cases "i < 0 \<or> int (length py) \<le> i")
    case True
    then show ?thesis by auto
  next
    case False
    let ?p = "py ! nat i"
    obtain m1 im1 where a1: "map_subscript im (mother1 ?p) = (m1, im1)" by (cases "map_subscript im (mother1 ?p)")
    obtain m2 im2 where a2: "map_subscript im1 (mother2 ?p) = (m2, im2)" by (cases "map_subscript im1 (mother2 ?p)")
    obtain d1 im3 where a3: "map_subscript im2 (daughter1 ?p) = (d1, im3)" by (cases "map_subscript im2 (daughter1 ?p)")
    obtain d2 im4 where a4: "map_subscript im3 (daughter2 ?p) = (d2, im4)" by (cases "map_subscript im3 (daughter2 ?p)")
    from map_subscript_new_index [OF Cons.prems, of "mother1 ?p"] a1
    have b1: "m1 = new_index sel base (mother1 ?p)"
      and i1: "\<forall>k. im1 k = assign_indices sel base Map.empty k \<or> (assign_indices sel base Map.empty k = None \<and> im1 k = Some 0)"
      by simp_all
    from map_subscript_new_index [OF i1, of "mother2 ?p"] a2
    have b2: "m2 = new_index sel base (mother2 ?p)"
      and i2: "\<forall>k. im2 k = assign_indices sel base Map.empty k \<or> (assign_indices sel base Map.empty k = None \<and> im2 k = Some 0)"
      by simp_all
    from map_subscript_new_index [OF i2, of "daughter1 ?p"] a3
    have b3: "d1 = new_index sel base (daughter1 ?p)"
      and i3: "\<forall>k. im3 k = assign_indices sel base Map.empty k \<or> (assign_indices sel base Map.empty k = None \<and> im3 k = Some 0)"
      by simp_all
    from map_subscript_new_index [OF i3, of "daughter2 ?p"] a4
    have b4: "d2 = new_index sel base (daughter2 ?p)"
      and i4: "\<forall>k. im4 k = assign_indices sel base Map.empty k \<or> (assign_indices sel base Map.empty k = None \<and> im4 k = Some 0)"
      by simp_all
    have "append_selected py (i # rest) im out =
          append_selected py rest im4 (out @ [remap_particle (new_index sel base) ?p])"
      using False by (simp add: a1 a2 a3 a4 Let_def b1 b2 b3 b4 remap_particle_def)
    also have "\<dots> = (if \<forall>i \<in> set rest. 0 \<le> i \<and> i < int (length py)
      then Inr ((out @ [remap_particle (new_index sel base) ?p]) @ map (\<lambda>i. remap_particle (new_index sel base) (py ! nat i)) rest)
      else Inl OutOfRange)"
      by (rule Cons.IH [OF i4])
    finally show ?thesis using False by simp
  qed
qed

lemma append_selected_init:
  "append_selected py is (assign_indices sel base Map.empty) out =
     (if \<forall>i \<in> set is. 0 \<le> i \<and> i < int (length py)
      then Inr (out @ map (\<lambda>i. remap_particle (new_index sel base) (py ! nat i)) is)
      else Inl OutOfRange)"
  by (rule append_selected_eq) simp

lemma selectFromAncestor_eq:
  assumes "select d DL ev a {} = Some (Inr S)"
  shows "selectFromAncestor DL py d a ev out =
     Some (if \<forall>i \<in> S. 0 \<le> i \<and> i < int (length py)
           then Inr (out @ map (\<lambda>i. remap_particle (new_index (sorted_list_of_set S) (int (length out))) (py ! nat i))
                            (sorted_list_of_set S))
           else Inl OutOfRange)"
proof -
  have fin: "finite S" using select_finite_aux(1) [of d DL ev a "{}"] assms by simp
  show ?thesis
    unfolding selectFromAncestor_def assms Let_def
    using fin by (simp add: append_selected_init)
qed

subsection \<open>Descendants\<close>

lemma daughter_rel_iff:
  "(i, j) \<in> daughter_rel DL ev \<longleftrightarrow> 0 \<le> i \<and> i < int (length ev) \<and> j \<in> set (DL ev (nat i))"
  by (simp add: daughter_rel_def)

lemma descendants_self: "a \<in> descendants DL ev a"
  by (simp add: descendants_def)

lemma descendants_unfold:
  assumes "0 \<le> i" "i < int (length ev)"
  shows "descendants DL ev i = insert i (\<Union>j \<in> set (DL ev (nat i)). descendants DL ev j)"
proof (intro set_eqI iffI)
  fix x assume "x \<in> descendants DL ev i"
  then have "(i, x) \<in> (daughter_rel DL ev)\<^sup>*" by (simp add: descendants_def)
  then show "x \<in> insert i (\<Union>j \<in> set (DL ev (nat i)). descendants DL ev j)"
  proof (cases rule: converse_rtranclE)
    case base
    then show ?thesis by simp
  next
    case (step j)
    then show ?thesis by (auto simp add: daughter_rel_iff descendants_def)
  qed
next
  fix x assume "x \<in> insert i (\<Union>j \<in> set (DL ev (nat i)). descendants DL ev j)"
  then consider "x = i" | j where "j \<in> set (DL ev (nat i))" "(j, x) \<in> (daughter_rel DL ev)\<^sup>*"
    by (auto simp add: descendants_def)
  then show "x \<in> descendants DL ev i"
  proof cases
    case 1
    then show ?thesis by (simp add: descendants_self)
  next
    case 2
    have "(i, j) \<in> daughter_rel DL ev" using assms 2(1) by (simp add: daughter_rel_iff)
    then show ?thesis using 2(2) by (simp add: descendants_def converse_rtrancl_into_rtrancl)
  qed
qed

lemma descendants_leaf:
  assumes "DL ev (nat a) = []"
  shows "descendants DL ev a = {a}"
proof -
  have "x = a" if "(a, x) \<in> (daughter_rel DL ev)\<^sup>*" for x
    using that assms by (cases rule: converse_rtranclE) (auto simp add: daughter_rel_iff)
  then show ?thesis by (auto simp add: descendants_def)
qed

subsection \<open>What the traversal returns\<close>

lemma select_descendants:
  "(\<forall>S'. select d DL ev i S = Some (Inr S') \<longrightarrow> S' = S \<union> descendants DL ev i)"
  "(\<forall>S'. select_daughters d DL ev js S = Some (Inr S') \<longrightarrow>
      S' = S \<union> (\<Union>j \<in> set js. descendants DL ev j))"
proof (induction d DL ev i S and d DL ev js S rule: select_select_daughters.induct)
  case (1 DL ev i S)
  show ?case by simp
next
  case (2 d DL ev i S)
  show ?case
  proof (intro allI impI)
    fix S' assume r: "select (Suc d) DL ev i S = Some (Inr S')"
    then have rng: "0 \<le> i" "i < int (length ev)" by (auto split: if_splits)
    then have "select_daughters d DL ev (DL ev (nat i)) (insert i S) = Some (Inr S')"
      using r by simp
    then have "S' = insert i S \<union> (\<Union>j \<in> set (DL ev (nat i)). descendants DL ev j)"
      using "2.IH" rng by auto
    then show "S' = S \<union> descendants DL ev i"
      unfolding descendants_unfold [OF rng] by auto
  qed
next
  case (3 d DL ev S)
  show ?case by simp
next
  case (4 d DL ev j dl S)
  show ?case
  proof (intro allI impI)
    fix S' assume r: "select_daughters d DL ev (j # dl) S = Some (Inr S')"
    from r obtain S1 where s1: "select d DL ev j S = Some (Inr S1)"
      and s2: "select_daughters d DL ev dl S1 = Some (Inr S')"
      by (auto split: option.splits sum.splits)
    from "4.IH"(1) s1 have e1: "S1 = S \<union> descendants DL ev j" by auto
    from "4.IH"(2) [OF s1] s2 have "S' = S1 \<union> (\<Union>j \<in> set dl. descendants DL ev j)" by auto
    then show "S' = S \<union> (\<Union>j \<in> set (j # dl). descendants DL ev j)"
      unfolding e1 by auto
  qed
qed

subsection \<open>No read out of range\<close>

lemma select_in_range:
  "(\<forall>x \<in> descendants DL ev i. 0 \<le> x \<and> x < int (length ev)) \<longrightarrow> select d DL ev i S \<noteq> Some (Inl e)"
  "(\<forall>j \<in> set js. \<forall>x \<in> descendants DL ev j. 0 \<le> x \<and> x < int (length ev)) \<longrightarrow>
      select_daughters d DL ev js S \<noteq> Some (Inl e)"
proof (induction d DL ev i S and d DL ev js S rule: select_select_daughters.induct)
  case (1 DL ev i S)
  show ?case by simp
next
  case (2 d DL ev i S)
  show ?case
  proof
    assume h: "\<forall>x \<in> descendants DL ev i. 0 \<le> x \<and> x < int (length ev)"
    then have rng: "0 \<le> i" "i < int (length ev)" using descendants_self [of i DL ev] by auto
    have "\<forall>j \<in> set (DL ev (nat i)). \<forall>x \<in> descendants DL ev j. 0 \<le> x \<and> x < int (length ev)"
      using h unfolding descendants_unfold [OF rng] by blast
    then show "select (Suc d) DL ev i S \<noteq> Some (Inl e)"
      using "2.IH" rng by simp
  qed
next
  case (3 d DL ev S)
  show ?case by simp
next
  case (4 d DL ev j dl S)
  show ?case
  proof
    assume h: "\<forall>j \<in> set (j # dl). \<forall>x \<in> descendants DL ev j. 0 \<le> x \<and> x < int (length ev)"
    show "select_daughters d DL ev (j # dl) S \<noteq> Some (Inl e)"
    proof (cases "select d DL ev j S")
      case None
      then show ?thesis by simp
    next
      case (Some r)
      show ?thesis
      proof (cases r)
        case (Inl e')
        then show ?thesis using "4.IH"(1) h Some by (cases e, cases e') auto
      next
        case (Inr S1)
        then show ?thesis using "4.IH"(2) [of r S1] h Some by simp
      qed
    qed
  qed
qed

subsection \<open>The traversal returns on an acyclic daughter relation\<close>

lemma finite_daughter_rel: "finite (daughter_rel DL ev)"
proof -
  have "daughter_rel DL ev \<subseteq> (\<Union>n \<in> {..< length ev}. {int n} \<times> set (DL ev n))"
  proof
    fix x assume "x \<in> daughter_rel DL ev"
    then obtain i j where x: "x = (i, j)" and h: "0 \<le> i" "i < int (length ev)" "j \<in> set (DL ev (nat i))"
      by (cases x) (auto simp add: daughter_rel_iff)
    have "nat i \<in> {..< length ev}" and "x \<in> {int (nat i)} \<times> set (DL ev (nat i))"
      using h x by auto
    then show "x \<in> (\<Union>n \<in> {..< length ev}. {int n} \<times> set (DL ev n))" by blast
  qed
  moreover have "finite (\<Union>n \<in> {..< length ev}. {int n} \<times> set (DL ev n))" by simp
  ultimately show ?thesis by (rule finite_subset)
qed

lemma select_daughters_returns:
  assumes "\<forall>j \<in> set js. \<exists>d. \<forall>d' \<ge> d. \<forall>S. select d' DL ev j S \<noteq> None"
  shows "\<exists>d. \<forall>d' \<ge> d. \<forall>S. select_daughters d' DL ev js S \<noteq> None"
  using assms
proof (induction js)
  case Nil
  show ?case by simp
next
  case (Cons j js)
  from Cons.prems obtain d1 where d1: "\<forall>d' \<ge> d1. \<forall>S. select d' DL ev j S \<noteq> None" by auto
  from Cons obtain d2 where d2: "\<forall>d' \<ge> d2. \<forall>S. select_daughters d' DL ev js S \<noteq> None" by auto
  have "select_daughters d' DL ev (j # js) S \<noteq> None" if "d' \<ge> max d1 d2" for d' S
  proof -
    have a: "select d' DL ev j S \<noteq> None" using d1 that by simp
    have b: "select_daughters d' DL ev js T \<noteq> None" for T using d2 that by simp
    show ?thesis using a b by (auto split: option.splits sum.splits)
  qed
  then show ?case by blast
qed

lemma select_returns:
  assumes "acyclic (daughter_rel DL ev)"
  shows "\<exists>d. \<forall>d' \<ge> d. \<forall>S. select d' DL ev i S \<noteq> None"
proof -
  have wf: "wf ((daughter_rel DL ev)\<inverse>)"
    using finite_daughter_rel assms by (rule finite_acyclic_wf_converse)
  show ?thesis
  proof (induction i rule: wf_induct_rule [OF wf])
    case (1 i)
    show ?case
    proof (cases "i < 0 \<or> int (length ev) \<le> i")
      case True
      have "select d' DL ev i S \<noteq> None" if "d' \<ge> 1" for d' S
        using that True by (cases d') auto
      then show ?thesis by blast
    next
      case False
      have "\<forall>j \<in> set (DL ev (nat i)). \<exists>d. \<forall>d' \<ge> d. \<forall>S. select d' DL ev j S \<noteq> None"
      proof
        fix j assume "j \<in> set (DL ev (nat i))"
        then have "(j, i) \<in> (daughter_rel DL ev)\<inverse>" using False by (simp add: daughter_rel_iff)
        then show "\<exists>d. \<forall>d' \<ge> d. \<forall>S. select d' DL ev j S \<noteq> None" by (rule 1)
      qed
      from select_daughters_returns [OF this]
      obtain d where d: "\<forall>d' \<ge> d. \<forall>S. select_daughters d' DL ev (DL ev (nat i)) S \<noteq> None" by blast
      have "select d' DL ev i S \<noteq> None" if "d' \<ge> Suc d" for d' S
      proof -
        from that obtain d'' where e: "d' = Suc d''" and "d'' \<ge> d" by (cases d') auto
        then show ?thesis using d False by simp
      qed
      then show ?thesis by blast
    qed
  qed
qed

subsection \<open>The particles appended\<close>

text \<open>
  On an acyclic daughter relation whose descendants of the ancestor are entries of both the
  input event and the generator's event, the call returns for every large enough recursion
  bound, and appends one particle per descendant of the ancestor (the ancestor included), in
  ascending order of index and each once, however many paths lead to it: the entry of the
  generator's event at that index, with its indices remapped.  An ancestor without daughters
  yields exactly one particle.
\<close>

lemma selectFromAncestor_closure:
  assumes ac: "acyclic (daughter_rel DL ev)"
    and rng: "\<forall>x \<in> descendants DL ev a. 0 \<le> x \<and> x < int (length ev) \<and> x < int (length py)"
    and sel: "sel = sorted_list_of_set (descendants DL ev a)"
  shows "finite (descendants DL ev a) \<and> distinct sel \<and> set sel = descendants DL ev a
       \<and> length sel = card (descendants DL ev a)
       \<and> (\<exists>d. \<forall>d' \<ge> d. selectFromAncestor DL py d' a ev out =
             Some (Inr (out @ map (\<lambda>i. remap_particle (new_index sel (int (length out))) (py ! nat i)) sel)))"
proof -
  from select_returns [OF ac, of a]
  obtain d where d: "\<forall>d' \<ge> d. \<forall>S. select d' DL ev a S \<noteq> None" by blast
  have rng': "\<forall>x \<in> descendants DL ev a. 0 \<le> x \<and> x < int (length ev)" using rng by blast
  have sel_d: "select d' DL ev a {} = Some (Inr (descendants DL ev a))" if "d' \<ge> d" for d'
  proof -
    have 1: "select d' DL ev a {} \<noteq> None" using d that by blast
    have 2: "select d' DL ev a {} \<noteq> Some (Inl e)" for e
      using select_in_range(1) [of DL ev a d' "{}" e] rng' by blast
    obtain S where S: "select d' DL ev a {} = Some (Inr S)"
    proof (cases "select d' DL ev a {}")
      case None
      then show ?thesis using 1 by simp
    next
      case (Some r)
      then show ?thesis using 2 that by (cases r) auto
    qed
    then show ?thesis using select_descendants(1) [of d' DL ev a "{}"] by simp
  qed
  have fin: "finite (descendants DL ev a)"
    using select_finite_aux(1) [of d DL ev a "{}"] sel_d [of d] by simp
  have run: "selectFromAncestor DL py d' a ev out =
      Some (Inr (out @ map (\<lambda>i. remap_particle (new_index sel (int (length out))) (py ! nat i)) sel))"
    if "d' \<ge> d" for d'
    unfolding selectFromAncestor_eq [OF sel_d [OF that]] sel [symmetric] using rng by simp
  show ?thesis using fin run by (auto simp add: sel)
qed

lemma selectFromAncestor_leaf:
  assumes "0 \<le> a" "a < int (length ev)" "a < int (length py)" "DL ev (nat a) = []"
  shows "selectFromAncestor DL py (Suc d) a ev out =
           Some (Inr (out @ [remap_particle (new_index [a] (int (length out))) (py ! nat a)]))"
proof -
  have "select (Suc d) DL ev a {} = Some (Inr {a})" using assms by simp
  from selectFromAncestor_eq [OF this, of py out] show ?thesis using assms by simp
qed

text \<open>
  Claim C1 says that the particles appended are the ancestor \<^emph>\<open>of the input event\<close> and its
  descendants.  The traversal reads \<^verbatim>\<open>inputEvent\<close>, but the second loop copies
  \<^verbatim>\<open>mPythia.event[i]\<close>.  Here the input event and the generator's event differ in entry 1,
  the ancestor is 1 and has no daughters, and the output event is empty: the particle
  appended is entry 1 of the generator's event (identifier 22), not the ancestor of the input
  event (identifier 21).
\<close>

theorem selectFromAncestor_reads_generator_event:
  "selectFromAncestor no_daughters generator_event_example 1 1 input_event_example [] =
     Some (Inr [particle0\<lparr>p_id := 22\<rparr>])
   \<and> input_event_example ! 1 = particle0\<lparr>p_id := 21\<rparr>
   \<and> descendants no_daughters input_event_example 1 = {1}"
proof -
  have "selectFromAncestor no_daughters generator_event_example 1 1 input_event_example [] =
     Some (Inr [particle0\<lparr>p_id := 22\<rparr>])"
    by code_simp
  moreover have "input_event_example ! 1 = particle0\<lparr>p_id := 21\<rparr>"
    by (simp add: input_event_example_def)
  moreover have "descendants no_daughters input_event_example 1 = {1}"
    by (rule descendants_leaf) (simp add: no_daughters_def)
  ultimately show ?thesis by simp
qed

section \<open>selectFromAncestor: the indices stored\<close>

text \<open>
  Claim C2.  Whenever \<^verbatim>\<open>selectFromAncestor\<close> returns normally, it has appended one particle per
  selected index and at least one, and left the entries already in the output event as they
  were.  Every mother and daughter index stored in an appended particle is either 0 (unset:
  what \<^verbatim>\<open>indexMap\<close> yields for an index that was not selected) or the position of an appended
  particle, hence below the length of the output event.  The stored index is \<open>f\<close> of the index
  the particle had, and \<open>f\<close> sends the \<open>n\<close>-th selected index to the position of the \<open>n\<close>-th
  appended particle: an index that refers to a selected particle resolves to the output
  position of that particle.
\<close>

theorem selectFromAncestor_indices_valid:
  assumes res: "selectFromAncestor DL py d a ev out = Some (Inr out')"
    and sel: "sel = selected_indices DL ev d a"
    and f: "f = new_index sel (int (length out))"
  shows "length out' = length out + length sel \<and> 0 < length sel \<and> take (length out) out' = out
     \<and> (\<forall>n. length out \<le> n \<and> n < length out' \<longrightarrow>
          (\<forall>x \<in> {mother1 (out' ! n), mother2 (out' ! n), daughter1 (out' ! n), daughter2 (out' ! n)}.
             x = 0 \<or> (int (length out) \<le> x \<and> x < int (length out'))))
     \<and> (\<forall>n < length sel.
            mother1 (out' ! (length out + n)) = f (mother1 (py ! nat (sel ! n)))
          \<and> mother2 (out' ! (length out + n)) = f (mother2 (py ! nat (sel ! n)))
          \<and> daughter1 (out' ! (length out + n)) = f (daughter1 (py ! nat (sel ! n)))
          \<and> daughter2 (out' ! (length out + n)) = f (daughter2 (py ! nat (sel ! n))))
     \<and> (\<forall>n < length sel. f (sel ! n) = int (length out + n))
     \<and> (\<forall>k. k \<notin> set sel \<longrightarrow> f k = 0)"
proof -
  from res obtain S where S: "select d DL ev a {} = Some (Inr S)"
    by (auto simp add: selectFromAncestor_def split: option.splits sum.splits)
  have fin: "finite S" and aS: "a \<in> S"
    using select_finite_aux(1) [of d DL ev a "{}"] S by auto
  have sel': "sel = sorted_list_of_set S" by (simp add: sel selected_indices_def S)
  have dist: "distinct sel" and set_sel: "set sel = S" using fin by (simp_all add: sel')
  have ne: "0 < length sel" using aS set_sel by (cases sel) auto
  have out': "out' = out @ map (\<lambda>i. remap_particle f (py ! nat i)) sel"
    using res unfolding selectFromAncestor_eq [OF S] sel' [symmetric] f
    by (simp split: if_splits)
  have len: "length out' = length out + length sel" by (simp add: out')
  have nth: "out' ! (length out + n) = remap_particle f (py ! nat (sel ! n))" if "n < length sel" for n
    using that by (simp add: out' nth_append)
  have rng: "f k = 0 \<or> (int (length out) \<le> f k \<and> f k < int (length out'))" for k
    using new_index_range [OF dist, of "int (length out)" k] by (simp add: f len)
  have fields: "mother1 (remap_particle f p) = f (mother1 p)" "mother2 (remap_particle f p) = f (mother2 p)"
      "daughter1 (remap_particle f p) = f (daughter1 p)" "daughter2 (remap_particle f p) = f (daughter2 p)" for p
    by (simp_all add: remap_particle_def)
  have c4: "\<forall>x \<in> {mother1 (out' ! n), mother2 (out' ! n), daughter1 (out' ! n), daughter2 (out' ! n)}.
             x = 0 \<or> (int (length out) \<le> x \<and> x < int (length out'))"
    if "length out \<le> n \<and> n < length out'" for n
  proof -
    from that obtain m where m: "n = length out + m" "m < length sel"
      using len by (metis add_diff_inverse_nat nat_add_left_cancel_less not_less)
    show ?thesis unfolding m(1) nth [OF m(2)] fields using rng by simp
  qed
  have c5: "\<forall>n < length sel.
            mother1 (out' ! (length out + n)) = f (mother1 (py ! nat (sel ! n)))
          \<and> mother2 (out' ! (length out + n)) = f (mother2 (py ! nat (sel ! n)))
          \<and> daughter1 (out' ! (length out + n)) = f (daughter1 (py ! nat (sel ! n)))
          \<and> daughter2 (out' ! (length out + n)) = f (daughter2 (py ! nat (sel ! n)))"
    by (simp add: nth fields)
  have c6: "\<forall>n < length sel. f (sel ! n) = int (length out + n)"
    using new_index_nth [OF dist] by (simp add: f)
  have c7: "\<forall>k. k \<notin> set sel \<longrightarrow> f k = 0" by (simp add: f new_index_other)
  have c3: "take (length out) out' = out" by (simp add: out')
  show ?thesis using len ne c3 c4 c5 c6 c7 by blast
qed

theorem selectFromAncestor_indices_valid_witness:
  "selectFromAncestor daughterList_example event_example 3 2 event_example [particle0] = Some (Inr output_example)
   \<and> selected_indices daughterList_example event_example 3 2 = [2, 3, 4, 5]
   \<and> length output_example = 5
   \<and> new_index [2, 3, 4, 5] 1 3 = 2
   \<and> new_index [2, 3, 4, 5] 1 1 = 0
   \<and> mother1 (event_example ! 3) = 2 \<and> mother1 (output_example ! 2) = 1
   \<and> mother1 (event_example ! 2) = 1 \<and> mother1 (output_example ! 1) = 0"
proof -
  have r: "selectFromAncestor daughterList_example event_example 3 2 event_example [particle0] = Some (Inr output_example)"
    by code_simp
  have s: "[2, 3, 4, 5] = selected_indices daughterList_example event_example 3 2"
    by code_simp
  note t = selectFromAncestor_indices_valid [OF r s refl]
  from t have "length output_example = length [particle0] + length [2, 3, 4, 5 :: int]" by blast
  then have len: "length output_example = 5" by simp
  from t have "\<forall>n < length [2, 3, 4, 5 :: int].
      new_index [2, 3, 4, 5] (int (length [particle0])) ([2, 3, 4, 5] ! n) = int (length [particle0] + n)"
    by blast
  then have a: "new_index [2, 3, 4, 5] 1 3 = 2" and a0: "new_index [2, 3, 4, 5] 1 2 = 1"
    by (simp_all add: All_less_Suc2 eval_nat_numeral)
  from t have "\<forall>k. k \<notin> set [2, 3, 4, 5] \<longrightarrow> new_index [2, 3, 4, 5] (int (length [particle0])) k = 0"
    by blast
  from this [rule_format, of 1] have b: "new_index [2, 3, 4, 5] 1 1 = 0" by simp
  have c: "mother1 (event_example ! 3) = 2" "mother1 (event_example ! 2) = 1"
    by (simp_all add: event_example_def particle0_def)
  from t have m: "\<forall>n < length [2, 3, 4, 5 :: int].
      mother1 (output_example ! (length [particle0] + n)) =
        new_index [2, 3, 4, 5] (int (length [particle0])) (mother1 (event_example ! nat ([2, 3, 4, 5] ! n)))"
    by blast
  from m [rule_format, of 1] have d: "mother1 (output_example ! 2) = 1"
    using c a0 by (simp add: eval_nat_numeral)
  from m [rule_format, of 0] have e: "mother1 (output_example ! 1) = 0"
    using c b by simp
  show ?thesis using r s [symmetric] len a b c d e by simp
qed

end
